theory Spec2Isabelle
  imports Complex_Main "HOL-Library.Word"
begin

section \<open>JavaScript numbers\<close>

text \<open>
  The program computes with IEEE doubles. A double is a real number, and each arithmetic
  operation returns the double nearest to the exact result, ties going to the even
  significand. Where the program takes \<open>Math.floor\<close> of a computed value, one unit in the
  last place can change the integer, so the rounding of every operation under the floor
  is written out (\<open>toDouble\<close>; the exponent range is not bounded, no modelled value
  comes near overflow or the subnormal numbers). The same is done for the times of the
  analysis frames, which are sums of rounded terms. Elsewhere results are only compared
  up to floating-point tolerance and the operations are idealised as exact.

  The one special value the modelled functions can produce is \<open>NaN\<close>, which arises from
  \<open>0 / 0\<close> and from arithmetic on \<open>undefined\<close> (a read past the end of an array).
  \<open>NaN\<close> is absorbing for arithmetic and every comparison with it is false.
  An infinity would need a non-zero number divided by zero. At each division of the
  modelled code the divisor is either a non-zero constant or the number of iterations of
  the loop that accumulated the numerator, so the numerator is \<open>0\<close> whenever the divisor
  is, and \<open>jdiv\<close> only has to produce \<open>NaN\<close> there. Sample rates are positive, as the
  Web Audio interface guarantees.
\<close>

text \<open>Rounding to the nearest integer, ties to even.\<close>

definition roundTiesToEven :: "real \<Rightarrow> int" where
  "roundTiesToEven y =
     (let f = \<lfloor>y\<rfloor>; r = y - of_int f
      in if r < 1 / 2 then f else if 1 / 2 < r then f + 1 else if even f then f else f + 1)"

text \<open>
  The double nearest to \<open>x\<close>: with \<open>2 ^ e \<le> |x| < 2 ^ (e + 1)\<close>, the nearest multiple
  of \<open>2 ^ (e - 52)\<close>, so that the significand has 53 bits.
\<close>

definition toDouble :: "real \<Rightarrow> real" where
  "toDouble x =
     (if x = 0 then 0
      else let e = \<lfloor>log 2 \<bar>x\<bar>\<rfloor>
           in of_int (roundTiesToEven (x / 2 powr (of_int e - 52))) * 2 powr (of_int e - 52))"

text \<open>The largest relative error of one rounding, \<open>2 ^ -53\<close>.\<close>

definition unitRoundoff :: real where
  "unitRoundoff = 2 powr (- 53)"

datatype jsnum = Num real | NaN

fun jadd :: "jsnum \<Rightarrow> jsnum \<Rightarrow> jsnum" where
  "jadd (Num a) (Num b) = Num (a + b)"
| "jadd _ _ = NaN"

fun jsub :: "jsnum \<Rightarrow> jsnum \<Rightarrow> jsnum" where
  "jsub (Num a) (Num b) = Num (a - b)"
| "jsub _ _ = NaN"

fun jmul :: "jsnum \<Rightarrow> jsnum \<Rightarrow> jsnum" where
  "jmul (Num a) (Num b) = Num (a * b)"
| "jmul _ _ = NaN"

fun jdiv :: "jsnum \<Rightarrow> jsnum \<Rightarrow> jsnum" where
  "jdiv (Num a) (Num b) = (if b = 0 then NaN else Num (a / b))"
| "jdiv _ _ = NaN"

text \<open>The comparison \<open>a > b\<close>.\<close>

fun jgt :: "jsnum \<Rightarrow> jsnum \<Rightarrow> bool" where
  "jgt (Num a) (Num b) = (a > b)"
| "jgt _ _ = False"

text \<open>\<open>Math.min\<close>, \<open>Math.abs\<close>, \<open>Math.sin\<close>, \<open>Math.cos\<close>, \<open>Math.sqrt\<close>.\<close>

fun jmin :: "jsnum \<Rightarrow> jsnum \<Rightarrow> jsnum" where
  "jmin (Num a) (Num b) = Num (min a b)"
| "jmin _ _ = NaN"

fun jabs :: "jsnum \<Rightarrow> jsnum" where
  "jabs (Num a) = Num \<bar>a\<bar>"
| "jabs NaN = NaN"

fun jsin :: "jsnum \<Rightarrow> jsnum" where
  "jsin (Num a) = Num (sin a)"
| "jsin NaN = NaN"

fun jcos :: "jsnum \<Rightarrow> jsnum" where
  "jcos (Num a) = Num (cos a)"
| "jcos NaN = NaN"

fun jsqrt :: "jsnum \<Rightarrow> jsnum" where
  "jsqrt (Num a) = (if a < 0 then NaN else Num (sqrt a))"
| "jsqrt NaN = NaN"

text \<open>
  \<open>xs[i]\<close> on an array of numbers: \<open>undefined\<close> outside the array, which every
  arithmetic operator and comparison treats as \<open>NaN\<close>.
\<close>

definition js_index :: "jsnum list \<Rightarrow> nat \<Rightarrow> jsnum" where
  "js_index xs i = (if i < length xs then xs ! i else NaN)"

text \<open>A read of a \<open>Uint8Array\<close> at an integer index, as a number operand.\<close>

definition js_byte :: "8 word list \<Rightarrow> int \<Rightarrow> jsnum" where
  "js_byte xs i = (if 0 \<le> i \<and> nat i < length xs then Num (real (unat (xs ! nat i))) else NaN)"

section \<open>Vectors (THREE.Vector3)\<close>

record vec3 =
  vx :: jsnum
  vy :: jsnum
  vz :: jsnum

definition Vector3 :: "jsnum \<Rightarrow> jsnum \<Rightarrow> jsnum \<Rightarrow> vec3" where
  "Vector3 a b c = \<lparr>vx = a, vy = b, vz = c\<rparr>"

definition addVectors :: "vec3 \<Rightarrow> vec3 \<Rightarrow> vec3" where
  "addVectors a b = Vector3 (jadd (vx a) (vx b)) (jadd (vy a) (vy b)) (jadd (vz a) (vz b))"

definition subVectors :: "vec3 \<Rightarrow> vec3 \<Rightarrow> vec3" where
  "subVectors a b = Vector3 (jsub (vx a) (vx b)) (jsub (vy a) (vy b)) (jsub (vz a) (vz b))"

definition multiplyScalar :: "vec3 \<Rightarrow> jsnum \<Rightarrow> vec3" where
  "multiplyScalar a s = Vector3 (jmul (vx a) s) (jmul (vy a) s) (jmul (vz a) s)"

definition vlength :: "vec3 \<Rightarrow> jsnum" where
  "vlength a = jsqrt (jadd (jadd (jmul (vx a) (vx a)) (jmul (vy a) (vy a))) (jmul (vz a) (vz a)))"

text \<open>
  \<open>normalize()\<close> is \<open>divideScalar(length() || 1)\<close>: a length that is \<open>0\<close> or
  \<open>NaN\<close> is falsy and replaced by \<open>1\<close>.
\<close>

definition normalize3 :: "vec3 \<Rightarrow> vec3" where
  "normalize3 a =
     (let l = vlength a;
          d = (if l = NaN \<or> l = Num 0 then Num 1 else l)
      in Vector3 (jdiv (vx a) d) (jdiv (vy a) d) (jdiv (vz a) d))"

definition crossVectors :: "vec3 \<Rightarrow> vec3 \<Rightarrow> vec3" where
  "crossVectors a b =
     Vector3 (jsub (jmul (vy a) (vz b)) (jmul (vz a) (vy b)))
             (jsub (jmul (vz a) (vx b)) (jmul (vx a) (vz b)))
             (jsub (jmul (vx a) (vy b)) (jmul (vy a) (vx b)))"


section \<open>Configuration (config.js)\<close>

definition CONFIG_game_laneCount :: real where
  "CONFIG_game_laneCount = 3"

definition CONFIG_track_segmentLength :: real where
  "CONFIG_track_segmentLength = 50"

definition CONFIG_track_segmentWidth :: real where
  "CONFIG_track_segmentWidth = 30"

definition CONFIG_track_curveIntensity :: real where
  "CONFIG_track_curveIntensity = 8 / 10"

definition CONFIG_track_hilliness :: real where
  "CONFIG_track_hilliness = 6 / 10"

text \<open>\<open>CONFIG.audio.frequencyBands\<close>: the \<open>(min, max)\<close> pairs in Hz, in configured order.\<close>

definition CONFIG_audio_frequencyBands :: "(real \<times> real) list" where
  "CONFIG_audio_frequencyBands =
     [(20, 60), (60, 250), (250, 500), (500, 2000), (2000, 6000), (6000, 20000)]"

definition CONFIG_visuals_blockColors :: "nat list" where
  "CONFIG_visuals_blockColors = [0xff0000, 0x00ff00, 0x0000ff, 0xffff00, 0xff00ff, 0x00ffff]"

section \<open>Audio processor (audioProcessor.js)\<close>

text \<open>An entry of \<open>analysisResults\<close>, as \<open>analyzeAudio\<close> pushes it.\<close>

record analysis_frame =
  time :: real
  frequencyData :: "8 word list"
  timeData :: "8 word list option"
  bandEnergies :: "jsnum list"
  beatIntensity :: jsnum
  isBlock :: bool
  blockColor :: nat

text \<open>The decoded \<open>AudioBuffer\<close>, as far as the analysis reads it.\<close>

record audio_buffer =
  duration :: real
  sampleRate :: real

text \<open>
  The fields of an \<open>AudioProcessor\<close> that the analysis reads or writes;
  \<open>contextSampleRate\<close> is \<open>this.audioContext.sampleRate\<close>.
\<close>

record audio_processor =
  audioBuffer :: "audio_buffer option"
  contextSampleRate :: real
  analysisResults :: "analysis_frame list"
  analysisDone :: bool

text \<open>
  The inner loop of \<open>calculateBandEnergies\<close>:
  \<open>for (let i = minIndex; i <= maxIndex; i++) energy += frequencyData[i] / 255\<close>.
\<close>

definition bandSum :: "8 word list \<Rightarrow> int \<Rightarrow> int \<Rightarrow> jsnum" where
  "bandSum fd minIndex maxIndex =
     foldl (\<lambda>energy i. jadd energy (jdiv (js_byte fd i) (Num 255))) (Num 0) [minIndex..maxIndex]"

text \<open>
  The bin of a frequency, \<open>Math.floor(freq / nyquist * frequencyData.length)\<close>: the
  quotient and the product are each rounded to a double before the floor is taken.
\<close>

definition binIndex :: "real \<Rightarrow> nat \<Rightarrow> real \<Rightarrow> int" where
  "binIndex nyquist n freq = \<lfloor>toDouble (toDouble (freq / nyquist) * real n)\<rfloor>"

text \<open>The body of the loop over the bands; a band is the pair \<open>(band.min, band.max)\<close>.\<close>

definition bandEnergy :: "real \<Rightarrow> 8 word list \<Rightarrow> real \<times> real \<Rightarrow> jsnum" where
  "bandEnergy nyquist fd band =
     (let minIndex = binIndex nyquist (length fd) (fst band);
          maxIndex = binIndex nyquist (length fd) (snd band);
          energy = bandSum fd minIndex maxIndex
      in jdiv energy (Num (real_of_int (maxIndex - minIndex + 1))))"

definition calculateBandEnergies :: "audio_processor \<Rightarrow> 8 word list \<Rightarrow> jsnum list" where
  "calculateBandEnergies ap fd =
     (let nyquist = toDouble (contextSampleRate ap / 2)
      in map (bandEnergy nyquist fd) CONFIG_audio_frequencyBands)"

definition detectBeat :: "audio_processor \<Rightarrow> 8 word list \<Rightarrow> 8 word list \<Rightarrow> jsnum" where
  "detectBeat ap fd td =
     (let nyquist = toDouble (contextSampleRate ap / 2);
          lowFreqMax = 150;
          maxIndex = binIndex nyquist (length fd) lowFreqMax;
          energy = foldl (\<lambda>e i. jadd e (js_byte fd i)) (Num 0) [0..maxIndex - 1];
          energy' = jdiv energy (Num (real_of_int (maxIndex * 255)));
          transientEnergy =
            foldl (\<lambda>t i. jadd t (jabs (jsub (js_byte td i) (js_byte td (i - 1))))) (Num 0)
                  [1..int (length td) - 1];
          transientEnergy' = jdiv transientEnergy (Num (255 * real (length td)))
      in jmin (Num 1) (jadd (jmul energy' (Num (7 / 10))) (jmul transientEnergy' (Num (3 / 10)))))"

definition determineBlockColor :: "jsnum list \<Rightarrow> nat" where
  "determineBlockColor es =
     fst (foldl (\<lambda>(maxEnergyIndex, maxEnergy) i.
                   if jgt (js_index es i) maxEnergy then (i, js_index es i)
                   else (maxEnergyIndex, maxEnergy))
                (0, Num 0) [0..<length es])
       mod length CONFIG_visuals_blockColors"

text \<open>
  The promise returned by \<open>analyzeAudio\<close>: resolved with the frames, rejected with an
  error, or never settled.
\<close>

datatype analysis_error = NoAudioBuffer

datatype 'a promise = Resolved 'a | Rejected analysis_error | Pending

text \<open>
  The offline rendering context, seen from the analysis: asked to suspend at a time, it
  either stops there and the analyser node holds a frequency array and a waveform array,
  or it refuses the request. A refused \<open>suspend\<close> throws inside \<open>processChunk\<close>, whose
  own promise nobody observes, so the promise of \<open>analyzeAudio\<close> stays pending.
\<close>

type_synonym analyser = "real \<Rightarrow> (8 word list \<times> 8 word list) option"

text \<open>
  \<open>processChunk\<close>, with the captured variables \<open>totalPoints\<close>, \<open>interval\<close>,
  \<open>totalDuration\<close> and \<open>currentPoint\<close> as arguments. The progress and completion
  callbacks only observe the values passed to them.
\<close>

function processChunk ::
  "analyser \<Rightarrow> int \<Rightarrow> real \<Rightarrow> real \<Rightarrow> audio_processor \<Rightarrow> nat \<Rightarrow> real
     \<Rightarrow> analysis_frame list promise \<times> audio_processor" where
  "processChunk env totalPoints interval totalDuration ap currentPoint currentTime =
     (if int currentPoint \<ge> totalPoints
      then (Resolved (analysisResults ap), ap\<lparr>analysisDone := True\<rparr>)
      else
        let nextTime = min (toDouble (currentTime + interval)) totalDuration
        in case env nextTime of
             None \<Rightarrow> (Pending, ap)
           | Some (fd, td) \<Rightarrow>
               let energies = calculateBandEnergies ap fd;
                   beat = detectBeat ap fd td;
                   ap' = ap\<lparr>analysisResults := analysisResults ap @
                           [\<lparr>time = currentTime, frequencyData = fd, timeData = Some td,
                             bandEnergies = energies, beatIntensity = beat,
                             isBlock = jgt beat (Num (6 / 10)),
                             blockColor = determineBlockColor energies\<rparr>]\<rparr>
               in processChunk env totalPoints interval totalDuration ap'
                    (Suc currentPoint) nextTime)"
  by pat_completeness auto
termination
  by (relation "measure (\<lambda>(env, totalPoints, interval, totalDuration, ap, currentPoint,
                  currentTime). nat (totalPoints - int currentPoint))") auto

declare processChunk.simps [simp del]


text \<open>
  \<open>analyzeAudio(resolution)\<close>: the settled promise and the processor afterwards.
  \<open>totalPoints\<close> is the floor of the rounded product. For \<open>resolution = 0\<close> the
  interval \<open>1 / resolution\<close> is never used, since \<open>totalPoints\<close> is \<open>0\<close> then.
\<close>

definition analyzeAudio ::
  "analyser \<Rightarrow> audio_processor \<Rightarrow> real \<Rightarrow> analysis_frame list promise \<times> audio_processor" where
  "analyzeAudio env ap resolution =
     (case audioBuffer ap of
        None \<Rightarrow> (Rejected NoAudioBuffer, ap)
      | Some buffer \<Rightarrow>
          let totalDuration = duration buffer;
              totalPoints = \<lfloor>toDouble (totalDuration * resolution)\<rfloor>;
              interval = toDouble (1 / resolution)
          in processChunk env totalPoints interval totalDuration
               (ap\<lparr>analysisResults := []\<rparr>) 0 0)"

section \<open>Track generator (trackGenerator.js)\<close>

record path_point =
  position :: vec3
  rotation :: jsnum
  tilt :: jsnum

record track_segment =
  startPathIndex :: int
  endPathIndex :: int
  audioIndex :: nat
  seg_beatIntensity :: jsnum
  seg_bandEnergies :: "jsnum list"

record mesh =
  mesh_position :: vec3
  mesh_visible :: bool

record block =
  block_mesh :: "mesh option"
  laneIndex :: int
  segmentIndex :: int
  color :: nat
  collected :: bool
  visible :: bool

text \<open>
  The arrays of a \<open>TrackGenerator\<close> that the modelled methods read or write. Its
  fields \<open>lanes\<close>, \<open>segmentLength\<close>, \<open>trackWidth\<close>, \<open>curveIntensity\<close> and
  \<open>hilliness\<close> are copied from \<open>CONFIG\<close> by the constructor and never assigned again,
  so the constants of \<open>CONFIG\<close> stand for them; scene and mesh handles belong to the
  renderer.
\<close>

record track_generator =
  trackPath :: "path_point list"
  trackSegments :: "track_segment list"
  blocks :: "block list"

definition newTrackGenerator :: track_generator where
  "newTrackGenerator = \<lparr>trackPath = [], trackSegments = [], blocks = []\<rparr>"

datatype js_error = TypeError

definition pointsPerSegment :: nat where
  "pointsPerSegment = 4"


text \<open>The initial straight section: the loop \<open>for (let i = 0; i < 10; i++)\<close>.\<close>

definition leadIn :: "path_point list" where
  "leadIn =
     map (\<lambda>i. \<lparr>position = Vector3 (Num 0) (Num 0)
                    (Num (- real i * CONFIG_track_segmentLength / real pointsPerSegment)),
               rotation = Num 0, tilt = Num 0\<rparr>) [0..<10]"

text \<open>The six curvature variables declared before the main loop.\<close>

record curve_state =
  currentDirection :: jsnum
  currentTilt :: jsnum
  targetDirection :: jsnum
  targetTilt :: jsnum
  currentElevation :: jsnum
  targetElevation :: jsnum

definition initialCurve :: curve_state where
  "initialCurve = \<lparr>currentDirection = Num 0, currentTilt = Num 0, targetDirection = Num 0,
                    targetTilt = Num 0, currentElevation = Num 0, targetElevation = Num 0\<rparr>"

text \<open>
  The mean of \<open>|timeData[j] - 128|\<close>; for an empty array the sum \<open>0\<close> is divided by the
  length \<open>0\<close>.
\<close>

definition avgAmplitude :: "8 word list \<Rightarrow> jsnum" where
  "avgAmplitude td =
     jdiv (Num (real_of_int (sum_list (map (\<lambda>w. \<bar>int (unat w) - 128\<bar>) td))))
          (Num (real (length td)))"

text \<open>
  The updates of the curvature variables in one iteration, up to "Smooth changes". A
  frame without \<open>timeData\<close> leaves the target elevation as it is.
\<close>

definition curveStep :: "curve_state \<Rightarrow> analysis_frame \<Rightarrow> curve_state" where
  "curveStep st analysis =
     (let tDir = (if jgt (beatIntensity analysis) (Num (7 / 10))
                  then jmul (jmul (jsub (js_index (bandEnergies analysis) 1)
                                        (js_index (bandEnergies analysis) 4))
                                  (Num CONFIG_track_curveIntensity)) (Num (1 / 2))
                  else jmul (targetDirection st) (Num (95 / 100)));
          tTilt = (if jgt (js_index (bandEnergies analysis) 2) (Num (7 / 10))
                      \<or> jgt (js_index (bandEnergies analysis) 3) (Num (7 / 10))
                   then jmul (jsub (js_index (bandEnergies analysis) 2)
                                   (js_index (bandEnergies analysis) 3))
                             (Num CONFIG_track_hilliness)
                   else jmul (targetTilt st) (Num (95 / 100)));
          tElev = (case timeData analysis of
                     None \<Rightarrow> targetElevation st
                   | Some td \<Rightarrow>
                       jsub (jmul (jmul (jdiv (avgAmplitude td) (Num 128))
                                        (Num CONFIG_track_hilliness)) (Num 10)) (Num 5))
      in \<lparr>currentDirection =
            jadd (jmul (currentDirection st) (Num (9 / 10))) (jmul tDir (Num (1 / 10))),
          currentTilt = jadd (jmul (currentTilt st) (Num (9 / 10))) (jmul tTilt (Num (1 / 10))),
          targetDirection = tDir,
          targetTilt = tTilt,
          currentElevation =
            jadd (jmul (currentElevation st) (Num (95 / 100))) (jmul tElev (Num (5 / 100))),
          targetElevation = tElev\<rparr>)"

text \<open>"Create path point": the point pushed after \<open>lastPoint\<close>.\<close>

definition nextPoint :: "path_point \<Rightarrow> curve_state \<Rightarrow> path_point" where
  "nextPoint lastPoint st =
     (let newDirection = jadd (rotation lastPoint) (currentDirection st);
          newX = jadd (vx (position lastPoint))
                      (jdiv (jmul (jsin newDirection) (Num CONFIG_track_segmentLength))
                            (Num (real pointsPerSegment)));
          newZ = jsub (vz (position lastPoint))
                      (jdiv (jmul (jcos newDirection) (Num CONFIG_track_segmentLength))
                            (Num (real pointsPerSegment)));
          newY = jadd (vy (position lastPoint)) (currentElevation st)
      in \<lparr>position = Vector3 newX newY newZ, rotation = newDirection,
          tilt = currentTilt st\<rparr>)"

text \<open>
  The main loop of \<open>generateTrackPath\<close>, from frame \<open>i\<close> on. \<open>trackPath[length - 1]\<close>
  of an empty path is \<open>undefined\<close>, and reading its \<open>rotation\<close> throws.
\<close>

fun pathLoop ::
  "nat \<Rightarrow> analysis_frame list \<Rightarrow> curve_state \<Rightarrow> path_point list \<Rightarrow> track_segment list
     \<Rightarrow> js_error + (path_point list \<times> track_segment list)" where
  "pathLoop i [] st path segs = Inr (path, segs)"
| "pathLoop i (analysis # rest) st path segs =
     (if path = [] then Inl TypeError
      else
        let st' = curveStep st analysis;
            path' = path @ [nextPoint (last path) st'];
            segs' = (if i mod pointsPerSegment = 0
                     then segs @ [\<lparr>startPathIndex = int (length path') - int pointsPerSegment,
                                   endPathIndex = int (length path') - 1,
                                   audioIndex = i,
                                   seg_beatIntensity = beatIntensity analysis,
                                   seg_bandEnergies = bandEnergies analysis\<rparr>]
                     else segs)
        in pathLoop (Suc i) rest st' path' segs')"

definition generateTrackPath ::
  "track_generator \<Rightarrow> analysis_frame list \<Rightarrow> js_error + track_generator" where
  "generateTrackPath tg results =
     (case pathLoop 0 results initialCurve leadIn [] of
        Inl e \<Rightarrow> Inl e
      | Inr (path, segs) \<Rightarrow> Inr (tg\<lparr>trackPath := path, trackSegments := segs\<rparr>))"

text \<open>\<open>getTrackLength\<close>: the number of segments.\<close>

definition getTrackLength :: "track_generator \<Rightarrow> nat" where
  "getTrackLength tg = length (trackSegments tg)"

text \<open>
  \<open>createBlock\<close>, as far as the block list goes: the new mesh is visible and the block
  is not collected. The intensity only sizes the geometry.
\<close>

definition createBlock ::
  "track_generator \<Rightarrow> vec3 \<Rightarrow> int \<Rightarrow> nat \<Rightarrow> int \<Rightarrow> jsnum \<Rightarrow> track_generator" where
  "createBlock tg pos lane col seg intensity =
     tg\<lparr>blocks := blocks tg @
          [\<lparr>block_mesh = Some \<lparr>mesh_position = pos, mesh_visible = True\<rparr>,
            laneIndex = lane, segmentIndex = seg, color = col,
            collected = False, visible = True\<rparr>]\<rparr>"

text \<open>
  \<open>getPositionOnTrack(segmentIndex, laneIndex, offset)\<close>. Segment and lane indices are
  integers at every call site. A point index outside the path makes \<open>point\<close> (or
  \<open>nextPoint\<close>) \<open>undefined\<close>, and reading its \<open>position\<close> throws.
\<close>

definition getPositionOnTrack ::
  "track_generator \<Rightarrow> int \<Rightarrow> int \<Rightarrow> real \<Rightarrow> js_error + vec3" where
  "getPositionOnTrack tg segIndex lane offset =
     (if segIndex < 0 \<or> segIndex \<ge> int (length (trackSegments tg))
      then Inr (Vector3 (Num 0) (Num 0) (Num 0))
      else
        let segment = trackSegments tg ! nat segIndex;
            pointIndex = startPathIndex segment
              + \<lfloor>offset * real_of_int (endPathIndex segment - startPathIndex segment)\<rfloor>
        in if pointIndex < 0 \<or> pointIndex \<ge> int (length (trackPath tg)) then Inl TypeError
           else
             let point = trackPath tg ! nat pointIndex;
                 laneWidth = CONFIG_track_segmentWidth / CONFIG_game_laneCount;
                 laneOffset = - CONFIG_track_segmentWidth / 2
                              + (real_of_int lane + 1 / 2) * laneWidth;
                 forward = (if pointIndex + 1 < int (length (trackPath tg))
                            then normalize3 (subVectors
                                   (position (trackPath tg ! nat (pointIndex + 1)))
                                   (position point))
                            else Vector3 (Num 0) (Num 0) (Num (- 1)));
                 right = normalize3 (crossVectors (Vector3 (Num 0) (Num 1) (Num 0)) forward)
             in Inr (addVectors
                       (addVectors (position point) (multiplyScalar right (Num laneOffset)))
                       (Vector3 (Num 0) (Num (1 / 2)) (Num 0))))"

definition getDirectionAtSegment :: "track_generator \<Rightarrow> int \<Rightarrow> real \<Rightarrow> js_error + vec3" where
  "getDirectionAtSegment tg segIndex offset =
     (if segIndex < 0 \<or> segIndex \<ge> int (length (trackSegments tg))
      then Inr (Vector3 (Num 0) (Num 0) (Num (- 1)))
      else
        let segment = trackSegments tg ! nat segIndex;
            pointIndex = startPathIndex segment
              + \<lfloor>offset * real_of_int (endPathIndex segment - startPathIndex segment)\<rfloor>
        in if pointIndex + 1 \<ge> int (length (trackPath tg))
           then Inr (Vector3 (Num 0) (Num 0) (Num (- 1)))
           else if pointIndex < 0 then Inl TypeError
           else Inr (normalize3 (subVectors
                       (position (trackPath tg ! nat (pointIndex + 1)))
                       (position (trackPath tg ! nat pointIndex)))))"

text \<open>The object \<open>checkBlockCollision\<close> returns for a hit.\<close>

record collision =
  index :: nat
  col_color :: nat
  col_segmentIndex :: int

text \<open>The loop of \<open>checkBlockCollision\<close> from block \<open>i\<close> on, over the rest of the list.\<close>

fun collisionLoop :: "int \<Rightarrow> int \<Rightarrow> nat \<Rightarrow> block list \<Rightarrow> collision option \<times> block list" where
  "collisionLoop playerSegment playerLane i [] = (None, [])"
| "collisionLoop playerSegment playerLane i (b # bs) =
     (if collected b
      then (case collisionLoop playerSegment playerLane (Suc i) bs of
              (r, bs') \<Rightarrow> (r, b # bs'))
      else if \<bar>segmentIndex b - playerSegment\<bar> \<le> 1 \<and> laneIndex b = playerLane
      then (Some \<lparr>index = i, col_color = color b, col_segmentIndex = segmentIndex b\<rparr>,
            b\<lparr>collected := True,
              block_mesh := map_option (\<lambda>m. m\<lparr>mesh_visible := False\<rparr>) (block_mesh b)\<rparr> # bs)
      else (case collisionLoop playerSegment playerLane (Suc i) bs of
              (r, bs') \<Rightarrow> (r, b # bs')))"

definition checkBlockCollision ::
  "track_generator \<Rightarrow> int \<Rightarrow> int \<Rightarrow> collision option \<times> track_generator" where
  "checkBlockCollision tg playerSegment playerLane =
     (case collisionLoop playerSegment playerLane 0 (blocks tg) of
        (r, bs) \<Rightarrow> (r, tg\<lparr>blocks := bs\<rparr>))"

section \<open>Vocabulary of the properties\<close>






text \<open>
  The average of the normalised magnitudes of the bins \<open>lo\<close> to \<open>hi\<close> inclusive, for
  bins inside the array.
\<close>

definition binAverage :: "8 word list \<Rightarrow> int \<Rightarrow> int \<Rightarrow> real" where
  "binAverage fd lo hi =
     sum_list (map (\<lambda>i. real (unat (fd ! nat i)) / 255) [lo..hi]) / real_of_int (hi - lo + 1)"


text \<open>
  A block the player at \<open>(playerSegment, playerLane)\<close> can collect: not yet collected,
  at most one segment away, in the player's lane. Collecting marks it and hides its mesh.
\<close>

definition collectible :: "int \<Rightarrow> int \<Rightarrow> block \<Rightarrow> bool" where
  "collectible playerSegment playerLane b =
     (\<not> collected b \<and> \<bar>segmentIndex b - playerSegment\<bar> \<le> 1 \<and> laneIndex b = playerLane)"

definition collect :: "block \<Rightarrow> block" where
  "collect b = b\<lparr>collected := True,
                 block_mesh := map_option (\<lambda>m. m\<lparr>mesh_visible := False\<rparr>) (block_mesh b)\<rparr>"

subsection \<open>Concrete inputs\<close>

text \<open>A frame of digital silence: every waveform sample at the midpoint 128.\<close>

definition quietFrame :: analysis_frame where
  "quietFrame = \<lparr>time = 0, frequencyData = [0, 0, 0, 0], timeData = Some [128, 128, 128, 128],
                  bandEnergies = [Num 0, Num 0, Num 0, Num 0, Num 0, Num 0],
                  beatIntensity = Num 0, isBlock = False, blockColor = 0\<rparr>"

text \<open>Two blocks in lane 0 of segment 0, as two beats within the first four frames give.\<close>

definition twoBlockTrack :: track_generator where
  "twoBlockTrack =
     createBlock
       (createBlock newTrackGenerator (Vector3 (Num (- 10)) (Num (3 / 2)) (Num 0))
          0 0xff0000 0 (Num 1))
       (Vector3 (Num (- 10)) (Num (3 / 2)) (Num 0)) 0 0x00ff00 0 (Num 1)"

text \<open>A processor whose audio context runs at the given rate, with no file loaded.\<close>

definition liveProcessor :: "real \<Rightarrow> audio_processor" where
  "liveProcessor rate = \<lparr>audioBuffer = None, contextSampleRate = rate,
                          analysisResults = [], analysisDone = False\<rparr>"



definition silentAnalyser :: analyser where
  "silentAnalyser t = Some (replicate 1024 0, replicate 1024 128)"


section \<open>Rounding to doubles\<close>

lemma rte_cases:
  "roundTiesToEven y = \<lfloor>y\<rfloor> \<or> roundTiesToEven y = \<lfloor>y\<rfloor> + 1"
  by (simp add: roundTiesToEven_def Let_def)

lemma rte_error: "\<bar>of_int (roundTiesToEven y) - y\<bar> \<le> 1 / 2"
proof -
  have "of_int \<lfloor>y\<rfloor> \<le> y" "y < of_int \<lfloor>y\<rfloor> + 1" by linarith+
  then show ?thesis
    by (auto simp: roundTiesToEven_def Let_def abs_le_iff)
qed

lemma rte_of_int [simp]: "roundTiesToEven (of_int n) = n"
  by (simp add: roundTiesToEven_def)

lemma rte_mono: "a \<le> b \<Longrightarrow> roundTiesToEven a \<le> roundTiesToEven b"
proof -
  assume ab: "a \<le> b"
  then have fl: "\<lfloor>a\<rfloor> \<le> \<lfloor>b\<rfloor>" by (rule floor_mono)
  show ?thesis
  proof (cases "\<lfloor>a\<rfloor> = \<lfloor>b\<rfloor>")
    case True
    with ab show ?thesis by (auto simp: roundTiesToEven_def Let_def)
  next
    case False
    with fl have "\<lfloor>a\<rfloor> + 1 \<le> \<lfloor>b\<rfloor>" by simp
    moreover have "roundTiesToEven a \<le> \<lfloor>a\<rfloor> + 1" using rte_cases [of a] by auto
    moreover have "\<lfloor>b\<rfloor> \<le> roundTiesToEven b" using rte_cases [of b] by auto
    ultimately show ?thesis by linarith
  qed
qed

lemma unitRoundoff_pos: "0 < unitRoundoff"
  by (simp add: unitRoundoff_def)

lemma unitRoundoff_small: "unitRoundoff < 1 / 1000"
proof -
  have "(2::real) powr (- 53) = inverse (2 powr 53)" by (rule powr_minus)
  also have "(2::real) powr 53 = 2 ^ 53" by (rule powr_numeral) simp
  finally have "unitRoundoff = inverse (2 ^ 53)" by (simp only: unitRoundoff_def)
  then show ?thesis by simp
qed

lemma binade:
  assumes "x \<noteq> 0"
  shows "2 powr of_int \<lfloor>log 2 \<bar>x\<bar>\<rfloor> \<le> \<bar>x\<bar>" "\<bar>x\<bar> < 2 powr (of_int \<lfloor>log 2 \<bar>x\<bar>\<rfloor> + 1)"
proof -
  have pos: "0 < \<bar>x\<bar>" using assms by simp
  have "of_int \<lfloor>log 2 \<bar>x\<bar>\<rfloor> \<le> log 2 \<bar>x\<bar>" by simp
  moreover have "of_int \<lfloor>log 2 \<bar>x\<bar>\<rfloor> \<le> log 2 \<bar>x\<bar> \<longleftrightarrow> 2 powr of_int \<lfloor>log 2 \<bar>x\<bar>\<rfloor> \<le> \<bar>x\<bar>"
    using pos by (intro le_log_iff) simp_all
  ultimately show "2 powr of_int \<lfloor>log 2 \<bar>x\<bar>\<rfloor> \<le> \<bar>x\<bar>" by blast
  have "log 2 \<bar>x\<bar> < of_int \<lfloor>log 2 \<bar>x\<bar>\<rfloor> + 1" by linarith
  moreover have "log 2 \<bar>x\<bar> < of_int \<lfloor>log 2 \<bar>x\<bar>\<rfloor> + 1 \<longleftrightarrow> \<bar>x\<bar> < 2 powr (of_int \<lfloor>log 2 \<bar>x\<bar>\<rfloor> + 1)"
    using pos by (intro log_less_iff) simp_all
  ultimately show "\<bar>x\<bar> < 2 powr (of_int \<lfloor>log 2 \<bar>x\<bar>\<rfloor> + 1)" by blast
qed

lemma exponent_unique:
  assumes "2 powr of_int e \<le> \<bar>x\<bar>" "\<bar>x\<bar> < 2 powr (of_int e + 1)"
  shows "\<lfloor>log 2 \<bar>x\<bar>\<rfloor> = e"
proof -
  have "0 < (2::real) powr of_int e" by simp
  with assms(1) have pos: "0 < \<bar>x\<bar>" by linarith
  have "of_int e \<le> log 2 \<bar>x\<bar> \<longleftrightarrow> 2 powr of_int e \<le> \<bar>x\<bar>"
    using pos by (intro le_log_iff) simp_all
  with assms(1) have 1: "of_int e \<le> log 2 \<bar>x\<bar>" by blast
  have "log 2 \<bar>x\<bar> < of_int e + 1 \<longleftrightarrow> \<bar>x\<bar> < 2 powr (of_int e + 1)"
    using pos by (intro log_less_iff) simp_all
  with assms(2) have 2: "log 2 \<bar>x\<bar> < of_int e + 1" by blast
  from 1 2 show ?thesis by linarith
qed

lemma toDouble_at:
  assumes "2 powr of_int e \<le> \<bar>x\<bar>" "\<bar>x\<bar> < 2 powr (of_int e + 1)"
  shows "toDouble x = of_int (roundTiesToEven (x / 2 powr (of_int e - 52))) * 2 powr (of_int e - 52)"
proof -
  have "0 < (2::real) powr of_int e" by simp
  with assms(1) have "x \<noteq> 0" by auto
  then show ?thesis using exponent_unique [OF assms] by (simp add: toDouble_def Let_def)
qed

lemma toDouble_error: "\<bar>toDouble x - x\<bar> \<le> \<bar>x\<bar> * unitRoundoff"
proof (cases "x = 0")
  case True
  then show ?thesis by (simp add: toDouble_def)
next
  case False
  define e where "e = \<lfloor>log 2 \<bar>x\<bar>\<rfloor>"
  define q :: real where "q = 2 powr (of_int e - 52)"
  have q: "0 < q" by (simp add: q_def)
  have fx: "toDouble x = of_int (roundTiesToEven (x / q)) * q"
    using False by (simp add: toDouble_def Let_def e_def q_def)
  have "toDouble x - x = (of_int (roundTiesToEven (x / q)) - x / q) * q"
    using q by (simp add: fx field_simps)
  then have "\<bar>toDouble x - x\<bar> = \<bar>of_int (roundTiesToEven (x / q)) - x / q\<bar> * q"
    using q by (simp add: abs_mult)
  also have "\<dots> \<le> 1 / 2 * q" using rte_error [of "x / q"] q by (intro mult_right_mono) simp_all
  also have "1 / 2 * q = 2 powr of_int e * unitRoundoff"
  proof -
    have "(2::real) powr (- 1) = inverse (2 powr 1)" by (rule powr_minus)
    then have "(1 / 2 :: real) = 2 powr (- 1)" by simp
    then have "1 / 2 * q = 2 powr (- 1) * 2 powr (of_int e - 52)" by (simp only: q_def)
    also have "\<dots> = 2 powr (- 1 + (of_int e - 52))" by (simp only: powr_add)
    also have "- 1 + (of_int e - 52) = of_int e + (- 53 :: real)" by simp
    also have "2 powr (of_int e + (- 53 :: real)) = 2 powr of_int e * 2 powr (- 53)"
      by (simp only: powr_add)
    finally show ?thesis by (simp only: unitRoundoff_def)
  qed
  also have "\<dots> \<le> \<bar>x\<bar> * unitRoundoff"
    using binade(1) [OF False] unitRoundoff_pos unfolding e_def by (intro mult_right_mono) simp_all
  finally show ?thesis .
qed

lemma toDouble_bounds:
  assumes "0 \<le> x"
  shows "x * (1 - unitRoundoff) \<le> toDouble x" "toDouble x \<le> x * (1 + unitRoundoff)"
proof -
  from toDouble_error [of x] assms have "\<bar>toDouble x - x\<bar> \<le> x * unitRoundoff" by simp
  then have "- (x * unitRoundoff) \<le> toDouble x - x" "toDouble x - x \<le> x * unitRoundoff"
    by (simp_all only: abs_le_iff) linarith+
  then show "x * (1 - unitRoundoff) \<le> toDouble x" "toDouble x \<le> x * (1 + unitRoundoff)"
    by (simp_all only: algebra_simps) 
qed

lemma toDouble_nonneg: "0 \<le> x \<Longrightarrow> 0 \<le> toDouble x"
proof -
  assume x: "0 \<le> x"
  have "0 \<le> x * (1 - unitRoundoff)"
    using x unitRoundoff_small by (intro mult_nonneg_nonneg) simp_all
  with toDouble_bounds(1) [OF x] show ?thesis by linarith
qed




lemma toDouble_binade:
  assumes "0 < x"
  shows "2 powr of_int \<lfloor>log 2 x\<rfloor> \<le> toDouble x"
    and "toDouble x \<le> 2 powr (of_int \<lfloor>log 2 x\<rfloor> + 1)"
proof -
  define e where "e = \<lfloor>log 2 x\<rfloor>"
  define q :: real where "q = 2 powr (of_int e - 52)"
  have q: "0 < q" by (simp add: q_def)
  from assms have ax: "\<bar>x\<bar> = x" "x \<noteq> 0" by simp_all
  have fx: "toDouble x = of_int (roundTiesToEven (x / q)) * q"
    using assms by (simp add: toDouble_def Let_def e_def q_def)
  have lo: "2 powr of_int e = of_int (2 ^ 52) * q"
  proof -
    have "(2::real) powr 52 = 2 ^ 52" by (rule powr_numeral) simp
    then have "of_int (2 ^ 52) * q = 2 powr 52 * 2 powr (of_int e - 52)" by (simp add: q_def)
    also have "\<dots> = 2 powr (52 + (of_int e - 52))" by (simp only: powr_add)
    finally show ?thesis by simp
  qed
  have hi: "2 powr (of_int e + 1) = of_int (2 ^ 53) * q"
  proof -
    have "(2::real) powr 53 = 2 ^ 53" by (rule powr_numeral) simp
    then have "of_int (2 ^ 53) * q = 2 powr 53 * 2 powr (of_int e - 52)" by (simp add: q_def)
    also have "\<dots> = 2 powr (53 + (of_int e - 52))" by (simp only: powr_add)
    also have "53 + (of_int e - 52) = (of_int e + 1 :: real)" by simp
    finally show ?thesis by (rule sym)
  qed
  from binade [OF ax(2)] have "of_int (2 ^ 52) * q \<le> x" "x < of_int (2 ^ 53) * q"
    unfolding ax(1) e_def [symmetric] lo hi by simp_all
  then have "of_int (2 ^ 52) \<le> x / q" "x / q \<le> of_int (2 ^ 53)"
    using q by (simp_all add: field_simps)
  then have "roundTiesToEven (of_int (2 ^ 52)) \<le> roundTiesToEven (x / q)"
    "roundTiesToEven (x / q) \<le> roundTiesToEven (of_int (2 ^ 53))"
    by (simp_all only: rte_mono)
  then have "(2 ^ 52 :: int) \<le> roundTiesToEven (x / q)" "roundTiesToEven (x / q) \<le> (2 ^ 53 :: int)"
    by (simp_all only: rte_of_int)
  then have "of_int (2 ^ 52) \<le> (of_int (roundTiesToEven (x / q)) :: real)"
    "(of_int (roundTiesToEven (x / q)) :: real) \<le> of_int (2 ^ 53)"
    by (simp_all only: of_int_le_iff)
  then have "of_int (2 ^ 52) * q \<le> toDouble x" "toDouble x \<le> of_int (2 ^ 53) * q"
    unfolding fx using q by (simp_all only: mult_le_cancel_right_pos)
  then show "2 powr of_int \<lfloor>log 2 x\<rfloor> \<le> toDouble x"
    and "toDouble x \<le> 2 powr (of_int \<lfloor>log 2 x\<rfloor> + 1)"
    unfolding e_def [symmetric] lo hi by simp_all
qed

lemma toDouble_mono:
  assumes "0 \<le> x" "x \<le> y"
  shows "toDouble x \<le> toDouble y"
proof (cases "x = 0")
  case True
  with assms toDouble_nonneg [of y] show ?thesis by (simp add: toDouble_def)
next
  case False
  with assms have x: "0 < x" and y: "0 < y" by simp_all
  from x assms(2) have "log 2 x \<le> log 2 y" by simp
  then have le: "\<lfloor>log 2 x\<rfloor> \<le> \<lfloor>log 2 y\<rfloor>" by (rule floor_mono)
  show ?thesis
  proof (cases "\<lfloor>log 2 x\<rfloor> = \<lfloor>log 2 y\<rfloor>")
    case True
    define q :: real where "q = 2 powr (of_int \<lfloor>log 2 y\<rfloor> - 52)"
    have q: "0 < q" by (simp add: q_def)
    have "toDouble x = of_int (roundTiesToEven (x / q)) * q"
      "toDouble y = of_int (roundTiesToEven (y / q)) * q"
      using x y True by (simp_all add: toDouble_def Let_def q_def)
    moreover have "x / q \<le> y / q" using assms(2) q by (simp add: divide_right_mono)
    then have "roundTiesToEven (x / q) \<le> roundTiesToEven (y / q)" by (rule rte_mono)
    ultimately show ?thesis using q by simp
  next
    case False
    with le have "\<lfloor>log 2 x\<rfloor> + 1 \<le> \<lfloor>log 2 y\<rfloor>" by simp
    then have "(of_int \<lfloor>log 2 x\<rfloor> + 1 :: real) \<le> of_int \<lfloor>log 2 y\<rfloor>" by linarith
    then have "(2::real) powr (of_int \<lfloor>log 2 x\<rfloor> + 1) \<le> 2 powr of_int \<lfloor>log 2 y\<rfloor>"
      by (simp only: powr_le_cancel_iff) 
    with toDouble_binade(2) [OF x] toDouble_binade(1) [OF y] show ?thesis by linarith
  qed
qed

lemma toDouble_scaled_up:
  assumes "2 ^ 52 \<le> \<bar>x\<bar> * 2 ^ n" "\<bar>x\<bar> * 2 ^ n < 2 ^ 53"
  shows "toDouble x = of_int (roundTiesToEven (x * 2 ^ n)) / 2 ^ n"
proof -
  define e :: int where "e = 52 - int n"
  have p: "(2::real) powr (of_int e - 52) = inverse (2 ^ n)"
  proof -
    have "of_int e - 52 = - real n" by (simp add: e_def)
    then have "(2::real) powr (of_int e - 52) = 2 powr (- real n)" by simp
    also have "\<dots> = inverse (2 powr real n)" by (rule powr_minus)
    also have "(2::real) powr real n = 2 ^ n" by (rule powr_realpow) simp
    finally show ?thesis .
  qed
  have p52: "(2::real) powr 52 = 2 ^ 52" by (rule powr_numeral) simp
  have p1: "(2::real) powr 1 = 2" by simp
  have "(2::real) powr of_int e = 2 powr (52 + (of_int e - 52))" by simp
  also have "\<dots> = 2 powr 52 * 2 powr (of_int e - 52)" by (simp only: powr_add)
  finally have pe: "(2::real) powr of_int e = 2 ^ 52 * inverse (2 ^ n)" by (simp only: p p52)
  have "(2::real) powr (of_int e + 1) = 2 powr of_int e * 2 powr 1" by (simp only: powr_add)
  then have pe1: "(2::real) powr (of_int e + 1) = 2 ^ 53 * inverse (2 ^ n)" by (simp add: pe)
  have a: "2 powr of_int e \<le> \<bar>x\<bar>" unfolding pe using assms(1) by (simp add: field_simps)
  have b: "\<bar>x\<bar> < 2 powr (of_int e + 1)" unfolding pe1 using assms(2) by (simp add: field_simps)
  from toDouble_at [OF a b] show ?thesis unfolding p by (simp add: divide_inverse)
qed

lemma toDouble_scaled_down:
  assumes "2 ^ 52 \<le> \<bar>x\<bar> / 2 ^ n" "\<bar>x\<bar> / 2 ^ n < 2 ^ 53"
  shows "toDouble x = of_int (roundTiesToEven (x / 2 ^ n)) * 2 ^ n"
proof -
  define e :: int where "e = 52 + int n"
  have p: "(2::real) powr (of_int e - 52) = 2 ^ n"
  proof -
    have "of_int e - 52 = real n" by (simp add: e_def)
    then have "(2::real) powr (of_int e - 52) = 2 powr (real n)" by simp
    also have "(2::real) powr real n = 2 ^ n" by (rule powr_realpow) simp
    finally show ?thesis .
  qed
  have p52: "(2::real) powr 52 = 2 ^ 52" by (rule powr_numeral) simp
  have "(2::real) powr of_int e = 2 powr (52 + (of_int e - 52))" by simp
  also have "\<dots> = 2 powr 52 * 2 powr (of_int e - 52)" by (simp only: powr_add)
  finally have pe: "(2::real) powr of_int e = 2 ^ 52 * 2 ^ n" by (simp only: p p52)
  have "(2::real) powr (of_int e + 1) = 2 powr of_int e * 2 powr 1" by (simp only: powr_add)
  then have pe1: "(2::real) powr (of_int e + 1) = 2 ^ 53 * 2 ^ n" by (simp add: pe)
  have a: "2 powr of_int e \<le> \<bar>x\<bar>" unfolding pe using assms(1) by (simp add: field_simps)
  have b: "\<bar>x\<bar> < 2 powr (of_int e + 1)" unfolding pe1 using assms(2) by (simp add: field_simps)
  from toDouble_at [OF a b] show ?thesis unfolding p by simp
qed

lemma toDouble_zero [simp]: "toDouble 0 = 0"
  by (simp add: toDouble_def)

text \<open>A coarse form of the error bound, enough to locate a floor.\<close>

lemma toDouble_coarse:
  assumes "0 \<le> x"
  shows "x * (999 / 1000) \<le> toDouble x" "toDouble x \<le> x * (1001 / 1000)"
proof -
  have "x * (999 / 1000) \<le> x * (1 - unitRoundoff)"
    using assms unitRoundoff_small by (intro mult_left_mono) simp_all
  with toDouble_bounds(1) [OF assms] show "x * (999 / 1000) \<le> toDouble x" by linarith
  have "x * (1 + unitRoundoff) \<le> x * (1001 / 1000)"
    using assms unitRoundoff_small by (intro mult_left_mono) simp_all
  with toDouble_bounds(2) [OF assms] show "toDouble x \<le> x * (1001 / 1000)" by linarith
qed


lemma toDouble_8000: "toDouble 8000 = 8000"
proof -
  have "toDouble 8000 = of_int (roundTiesToEven (8000 * 2 ^ 40)) / 2 ^ 40"
    by (rule toDouble_scaled_up) simp_all
  also have "roundTiesToEven (8000 * 2 ^ 40) = 8000 * 2 ^ 40"
    by (simp add: roundTiesToEven_def Let_def)
  finally show ?thesis by simp
qed



text \<open>
  The quotient 60 / 22050 rounds down, and 735 times the rounded quotient rounds to the
  double just below 2.
\<close>

lemma double_60_22050: "toDouble (60 / 22050) = 6274402746159711 / 2 ^ 61"
proof -
  have "toDouble (60 / 22050) = of_int (roundTiesToEven (60 / 22050 * 2 ^ 61)) / 2 ^ 61"
    by (rule toDouble_scaled_up) simp_all
  also have "roundTiesToEven (60 / 22050 * 2 ^ 61) = 6274402746159711"
    by (simp add: roundTiesToEven_def Let_def)
  finally show ?thesis by simp
qed

lemma double_60_22050_735: "\<lfloor>toDouble (toDouble (60 / 22050) * 735)\<rfloor> = 1"
proof -
  have "toDouble (6274402746159711 / 2 ^ 61 * 735)
        = of_int (roundTiesToEven (6274402746159711 / 2 ^ 61 * 735 * 2 ^ 52)) / 2 ^ 52"
    by (rule toDouble_scaled_up) simp_all
  also have "roundTiesToEven (6274402746159711 / 2 ^ 61 * 735 * 2 ^ 52) = 9007199254740991"
    by (simp add: roundTiesToEven_def Let_def)
  finally have "toDouble (6274402746159711 / 2 ^ 61 * 735) = 9007199254740991 / 2 ^ 52" by simp
  then have "\<lfloor>toDouble (toDouble (60 / 22050) * 735)\<rfloor> = \<lfloor>9007199254740991 / 2 ^ 52 :: real\<rfloor>"
    by (simp only: double_60_22050)
  then show ?thesis by simp
qed



section \<open>Path and segment counts\<close>

lemma length_leadIn: "length leadIn = 10"
  by (simp add: leadIn_def)

lemma pathLoop_total:
  "path \<noteq> [] \<Longrightarrow> \<exists>p s. pathLoop i fs st path segs = Inr (p, s)"
proof (induction fs arbitrary: i st path segs)
  case Nil
  then show ?case by simp
next
  case (Cons a fs)
  then show ?case by (simp add: Let_def)
qed

lemma pathLoop_Cons:
  assumes "pathLoop i (a # fs) st path segs = Inr (p, s)"
  shows "path \<noteq> [] \<and>
         (\<exists>segs'. pathLoop (Suc i) fs (curveStep st a)
                    (path @ [nextPoint (last path) (curveStep st a)]) segs' = Inr (p, s))"
  using assms by (auto simp: Let_def split: if_splits)

lemma pathLoop_length_path:
  "pathLoop i fs st path segs = Inr (p, s) \<Longrightarrow> length p = length path + length fs"
proof (induction fs arbitrary: i st path segs)
  case Nil
  then show ?case by simp
next
  case (Cons a fs)
  from pathLoop_Cons [OF Cons.prems] obtain segs' where
    "pathLoop (Suc i) fs (curveStep st a)
       (path @ [nextPoint (last path) (curveStep st a)]) segs' = Inr (p, s)"
    by blast
  from Cons.IH [OF this] show ?case by simp
qed

lemma pathLoop_length_segs:
  "pathLoop i fs st path segs = Inr (p, s) \<Longrightarrow>
   length s + (i + 3) div 4 = length segs + (i + length fs + 3) div 4"
proof (induction fs arbitrary: i st path segs)
  case Nil
  then show ?case by simp
next
  case (Cons a fs)
  from Cons.prems have ne: "path \<noteq> []" by (auto split: if_splits)
  show ?case
  proof (cases "i mod 4 = 0")
    case True
    have "(Suc i + 3) div 4 = Suc ((i + 3) div 4)" using True by presburger
    with Cons.prems Cons.IH ne True show ?thesis
      by (fastforce simp: Let_def pointsPerSegment_def)
  next
    case False
    have "(Suc i + 3) div 4 = (i + 3) div 4" using False by presburger
    with Cons.prems Cons.IH ne False show ?thesis
      by (fastforce simp: Let_def pointsPerSegment_def)
  qed
qed


lemma generateTrackPath_returns:
  "\<exists>tg'. generateTrackPath tg fs = Inr tg' \<and> length (trackPath tg') = 10 + length fs \<and>
         length (trackSegments tg') = (length fs + 3) div 4"
proof -
  have "leadIn \<noteq> []" using length_leadIn by auto
  then obtain p s where ps: "pathLoop 0 fs initialCurve leadIn [] = Inr (p, s)"
    using pathLoop_total by blast
  then have "length p = 10 + length fs"
    using pathLoop_length_path length_leadIn by fastforce
  moreover from pathLoop_length_segs [OF ps] have "length s = (length fs + 3) div 4"
    by simp
  ultimately show ?thesis using ps by (simp add: generateTrackPath_def)
qed

text \<open>
  C10. \<open>generateTrackPath\<close> returns normally for every frame sequence, and the path it
  stores has the ten lead-in points plus exactly one point per analysis frame:
  \<open>10 + n\<close> points for \<open>n\<close> frames (not \<open>pointsPerSegment\<close> points per frame).
\<close>

theorem generateTrackPath_path_length:
  "\<exists>tg'. generateTrackPath tg frames = Inr tg' \<and>
         length (trackPath tg') = 10 + length frames"
  using generateTrackPath_returns [of tg frames] by blast

text \<open>
  C2, as stated: the number of segments is \<open>floor(n / pointsPerSegment)\<close>. It fails for a
  single frame: the loop pushes a segment at frame index 0, so one frame gives one
  segment, while \<open>floor(1 / 4) = 0\<close>.
\<close>

theorem segment_count_floor_counterexample:
  "generateTrackPath newTrackGenerator [quietFrame] \<noteq> Inl TypeError \<and>
   getTrackLength (projr (generateTrackPath newTrackGenerator [quietFrame])) = 1 \<and>
   length [quietFrame] div pointsPerSegment = 0"
  by (simp add: generateTrackPath_def getTrackLength_def leadIn_def pointsPerSegment_def
      Let_def)

text \<open>
  C2, amended. A segment is pushed at every frame index divisible by
  \<open>pointsPerSegment\<close>, starting with index 0, so \<open>n\<close> frames give
  \<open>ceil(n / pointsPerSegment)\<close> segments.
\<close>

theorem generateTrackPath_segment_count:
  "\<exists>tg'. generateTrackPath tg frames = Inr tg' \<and>
         getTrackLength tg' = (length frames + (pointsPerSegment - 1)) div pointsPerSegment"
  using generateTrackPath_returns [of tg frames]
  by (auto simp: getTrackLength_def pointsPerSegment_def)

section \<open>Spacing of the path points\<close>


lemma jadd_num [simp]: "jadd a b \<noteq> NaN \<longleftrightarrow> a \<noteq> NaN \<and> b \<noteq> NaN"
  by (cases a; cases b) auto

lemma jsub_num [simp]: "jsub a b \<noteq> NaN \<longleftrightarrow> a \<noteq> NaN \<and> b \<noteq> NaN"
  by (cases a; cases b) auto

lemma jmul_num [simp]: "jmul a b \<noteq> NaN \<longleftrightarrow> a \<noteq> NaN \<and> b \<noteq> NaN"
  by (cases a; cases b) auto
















section \<open>Lead-in and straight running\<close>











section \<open>Queries outside the track\<close>

text \<open>
  C9. For every segment index outside \<open>[0, segmentCount)\<close>, and any lane and offset,
  \<open>getPositionOnTrack\<close> returns the origin and \<open>getDirectionAtSegment\<close> returns the
  default forward axis \<open>(0, 0, -1)\<close>; neither throws.
\<close>

theorem out_of_range_queries:
  assumes "segIndex < 0 \<or> int (getTrackLength tg) \<le> segIndex"
  shows "getPositionOnTrack tg segIndex lane offset = Inr (Vector3 (Num 0) (Num 0) (Num 0)) \<and>
         getDirectionAtSegment tg segIndex offset = Inr (Vector3 (Num 0) (Num 0) (Num (- 1)))"
  using assms by (auto simp: getPositionOnTrack_def getDirectionAtSegment_def getTrackLength_def)

text \<open>C9 at segment \<open>-1\<close> of the track generated from one frame.\<close>

theorem out_of_range_queries_witness:
  "getPositionOnTrack (projr (generateTrackPath newTrackGenerator [quietFrame])) (- 1) 1 0
     = Inr (Vector3 (Num 0) (Num 0) (Num 0)) \<and>
   getDirectionAtSegment (projr (generateTrackPath newTrackGenerator [quietFrame])) (- 1) 0
     = Inr (Vector3 (Num 0) (Num 0) (Num (- 1)))"
  using out_of_range_queries [of "- 1" "projr (generateTrackPath newTrackGenerator [quietFrame])" 1 0]
  by simp

section \<open>Collecting blocks\<close>

lemma collisionLoop_Cons_fst:
  "fst (collisionLoop ps pl i (b # bs)) =
     (if collectible ps pl b
      then Some \<lparr>index = i, col_color = color b, col_segmentIndex = segmentIndex b\<rparr>
      else fst (collisionLoop ps pl (Suc i) bs))"
  by (auto simp: collectible_def case_prod_beta)

lemma collisionLoop_Cons_snd:
  "snd (collisionLoop ps pl i (b # bs)) =
     (if collectible ps pl b then collect b # bs
      else b # snd (collisionLoop ps pl (Suc i) bs))"
  by (auto simp: collectible_def collect_def case_prod_beta)

lemmas collisionLoop_Cons = collisionLoop_Cons_fst collisionLoop_Cons_snd

lemma collisionLoop_None:
  "fst (collisionLoop ps pl i bs) = None \<longleftrightarrow> (\<forall>b\<in>set bs. \<not> collectible ps pl b)"
  by (induction bs arbitrary: i) (simp_all add: collisionLoop_Cons del: collisionLoop.simps(2))

lemma collisionLoop_None_same:
  "fst (collisionLoop ps pl i bs) = None \<Longrightarrow> snd (collisionLoop ps pl i bs) = bs"
  by (induction bs arbitrary: i)
    (simp_all add: collisionLoop_Cons del: collisionLoop.simps(2) split: if_splits)

lemma collisionLoop_Some:
  "fst (collisionLoop ps pl i bs) = Some c \<Longrightarrow>
   i \<le> index c \<and> index c - i < length bs \<and>
   collectible ps pl (bs ! (index c - i)) \<and>
   (\<forall>j<index c - i. \<not> collectible ps pl (bs ! j)) \<and>
   col_color c = color (bs ! (index c - i)) \<and>
   col_segmentIndex c = segmentIndex (bs ! (index c - i)) \<and>
   snd (collisionLoop ps pl i bs) = bs[index c - i := collect (bs ! (index c - i))]"
proof (induction bs arbitrary: i)
  case Nil
  then show ?case by simp
next
  case (Cons b bs)
  show ?case
  proof (cases "collectible ps pl b")
    case True
    with Cons.prems show ?thesis
      by (auto simp: collisionLoop_Cons simp del: collisionLoop.simps(2))
  next
    case False
    with Cons.prems have r: "fst (collisionLoop ps pl (Suc i) bs) = Some c"
      by (simp add: collisionLoop_Cons del: collisionLoop.simps(2))
    from Cons.IH [OF r] have ih: "Suc i \<le> index c" "index c - Suc i < length bs"
      "collectible ps pl (bs ! (index c - Suc i))"
      "\<forall>j<index c - Suc i. \<not> collectible ps pl (bs ! j)"
      "col_color c = color (bs ! (index c - Suc i))"
      "col_segmentIndex c = segmentIndex (bs ! (index c - Suc i))"
      "snd (collisionLoop ps pl (Suc i) bs) = bs[index c - Suc i := collect (bs ! (index c - Suc i))]"
      by auto
    from ih(1) obtain d where d: "index c - i = Suc d" "index c - Suc i = d"
      by (metis Suc_diff_Suc Suc_le_lessD)
    have "\<forall>j<Suc d. \<not> collectible ps pl ((b # bs) ! j)"
      using False ih(4) d by (auto simp: less_Suc_eq_0_disj)
    moreover have "snd (collisionLoop ps pl i (b # bs)) = b # snd (collisionLoop ps pl (Suc i) bs)"
      using False by (simp add: collisionLoop_Cons del: collisionLoop.simps(2))
    ultimately show ?thesis using ih d by auto
  qed
qed

lemma collectible_collect: "\<not> collectible ps pl (collect b)"
  by (simp add: collectible_def collect_def)

lemma checkBlockCollision_fst:
  "fst (checkBlockCollision tg ps pl) = fst (collisionLoop ps pl 0 (blocks tg))"
  by (simp add: checkBlockCollision_def case_prod_beta)

lemma checkBlockCollision_snd:
  "snd (checkBlockCollision tg ps pl) = tg\<lparr>blocks := snd (collisionLoop ps pl 0 (blocks tg))\<rparr>"
  by (simp add: checkBlockCollision_def case_prod_beta)

text \<open>
  C7, as stated, ends with: the second identical call on an otherwise unchanged state
  returns no collision. It fails when a second collectible block is in range: with two
  blocks in lane 0 of segment 0, the first call returns block 0 and the second identical
  call returns block 1.
\<close>

theorem second_call_counterexample:
  "fst (checkBlockCollision twoBlockTrack 0 0)
     = Some \<lparr>index = 0, col_color = 0xff0000, col_segmentIndex = 0\<rparr> \<and>
   fst (checkBlockCollision (snd (checkBlockCollision twoBlockTrack 0 0)) 0 0)
     = Some \<lparr>index = 1, col_color = 0x00ff00, col_segmentIndex = 0\<rparr>"
  by (simp add: checkBlockCollision_def twoBlockTrack_def createBlock_def newTrackGenerator_def)

text \<open>
  C7, amended. \<open>checkBlockCollision\<close> returns no collision exactly when no block is
  collectible, and then changes nothing. Otherwise it returns the first collectible block
  (not yet collected, at most one segment away, in the player's lane) with its index, colour
  and segment, and marks exactly that block collected with its mesh hidden. No later call,
  with any arguments, returns that block again; the second identical call returns no
  collision exactly when no other block was collectible, and the next collectible block
  otherwise.
\<close>

theorem checkBlockCollision_first_uncollected:
  "(fst (checkBlockCollision tg ps pl) = None \<longleftrightarrow>
      (\<forall>b\<in>set (blocks tg). \<not> collectible ps pl b)) \<and>
   (fst (checkBlockCollision tg ps pl) = None \<longrightarrow> snd (checkBlockCollision tg ps pl) = tg) \<and>
   (\<forall>c. fst (checkBlockCollision tg ps pl) = Some c \<longrightarrow>
      index c < length (blocks tg) \<and>
      collectible ps pl (blocks tg ! index c) \<and>
      (\<forall>j<index c. \<not> collectible ps pl (blocks tg ! j)) \<and>
      col_color c = color (blocks tg ! index c) \<and>
      col_segmentIndex c = segmentIndex (blocks tg ! index c) \<and>
      snd (checkBlockCollision tg ps pl)
        = tg\<lparr>blocks := (blocks tg)[index c := collect (blocks tg ! index c)]\<rparr> \<and>
      (\<forall>ps' pl' c'. fst (checkBlockCollision (snd (checkBlockCollision tg ps pl)) ps' pl') = Some c'
         \<longrightarrow> index c' \<noteq> index c) \<and>
      (fst (checkBlockCollision (snd (checkBlockCollision tg ps pl)) ps pl) = None \<longleftrightarrow>
         (\<forall>j<length (blocks tg). j \<noteq> index c \<longrightarrow> \<not> collectible ps pl (blocks tg ! j))) \<and>
      (\<forall>c'. fst (checkBlockCollision (snd (checkBlockCollision tg ps pl)) ps pl) = Some c'
         \<longrightarrow> index c < index c' \<and> collectible ps pl (blocks tg ! index c')))"
proof (intro conjI allI impI)
  show "fst (checkBlockCollision tg ps pl) = None \<longleftrightarrow>
      (\<forall>b\<in>set (blocks tg). \<not> collectible ps pl b)"
    by (simp add: checkBlockCollision_fst collisionLoop_None)
next
  assume "fst (checkBlockCollision tg ps pl) = None"
  then show "snd (checkBlockCollision tg ps pl) = tg"
    by (simp add: checkBlockCollision_fst checkBlockCollision_snd collisionLoop_None_same)
next
  fix c
  assume "fst (checkBlockCollision tg ps pl) = Some c"
  then have "fst (collisionLoop ps pl 0 (blocks tg)) = Some c"
    by (simp add: checkBlockCollision_fst)
  from collisionLoop_Some [OF this]
  have c: "index c < length (blocks tg)" "collectible ps pl (blocks tg ! index c)"
    "\<forall>j<index c. \<not> collectible ps pl (blocks tg ! j)"
    "col_color c = color (blocks tg ! index c)"
    "col_segmentIndex c = segmentIndex (blocks tg ! index c)"
    "snd (collisionLoop ps pl 0 (blocks tg)) = (blocks tg)[index c := collect (blocks tg ! index c)]"
    by simp_all
  let ?bs = "(blocks tg)[index c := collect (blocks tg ! index c)]"
  have after: "snd (checkBlockCollision tg ps pl) = tg\<lparr>blocks := ?bs\<rparr>"
    by (simp add: checkBlockCollision_snd c(6))
  have upd: "collectible ps' pl' (?bs ! j) \<longleftrightarrow> j \<noteq> index c \<and> collectible ps' pl' (blocks tg ! j)"
    if "j < length (blocks tg)" for j ps' pl'
    using that by (cases "j = index c") (simp_all add: collectible_collect)
  show "index c < length (blocks tg)" by (rule c(1))
  show "collectible ps pl (blocks tg ! index c)" by (rule c(2))
  show "col_color c = color (blocks tg ! index c)" by (rule c(4))
  show "col_segmentIndex c = segmentIndex (blocks tg ! index c)" by (rule c(5))
  show "snd (checkBlockCollision tg ps pl) = tg\<lparr>blocks := ?bs\<rparr>" by (rule after)
  show "\<not> collectible ps pl (blocks tg ! j)" if "j < index c" for j
    using c(3) that by simp
  show "index c' \<noteq> index c"
    if "fst (checkBlockCollision (snd (checkBlockCollision tg ps pl)) ps' pl') = Some c'"
    for ps' pl' c'
  proof -
    from that have "fst (collisionLoop ps' pl' 0 ?bs) = Some c'"
      by (simp add: after checkBlockCollision_fst)
    from collisionLoop_Some [OF this]
    have "index c' < length (blocks tg)" "collectible ps' pl' (?bs ! index c')" by simp_all
    then show ?thesis using upd by blast
  qed
  have "fst (checkBlockCollision (snd (checkBlockCollision tg ps pl)) ps pl) = None \<longleftrightarrow>
        (\<forall>j<length ?bs. \<not> collectible ps pl (?bs ! j))"
    by (simp add: after checkBlockCollision_fst collisionLoop_None all_set_conv_all_nth)
  also have "\<dots> \<longleftrightarrow> (\<forall>j<length (blocks tg). j \<noteq> index c \<longrightarrow> \<not> collectible ps pl (blocks tg ! j))"
    using upd by auto
  finally show "fst (checkBlockCollision (snd (checkBlockCollision tg ps pl)) ps pl) = None \<longleftrightarrow>
         (\<forall>j<length (blocks tg). j \<noteq> index c \<longrightarrow> \<not> collectible ps pl (blocks tg ! j))" .
  have nxt: "index c < index c' \<and> collectible ps pl (blocks tg ! index c')"
    if "fst (checkBlockCollision (snd (checkBlockCollision tg ps pl)) ps pl) = Some c'" for c'
  proof -
    from that have "fst (collisionLoop ps pl 0 ?bs) = Some c'"
      by (simp add: after checkBlockCollision_fst)
    from collisionLoop_Some [OF this]
    have c': "index c' < length (blocks tg)" "collectible ps pl (?bs ! index c')" by simp_all
    with upd have ne: "index c' \<noteq> index c" and col: "collectible ps pl (blocks tg ! index c')"
      by blast+
    from col c(3) have "\<not> index c' < index c" by blast
    with ne col show ?thesis by simp
  qed
  show "index c < index c'"
    if "fst (checkBlockCollision (snd (checkBlockCollision tg ps pl)) ps pl) = Some c'" for c'
    using nxt [OF that] by simp
  show "collectible ps pl (blocks tg ! index c')"
    if "fst (checkBlockCollision (snd (checkBlockCollision tg ps pl)) ps pl) = Some c'" for c'
    using nxt [OF that] by simp
qed

text \<open>The amended C7 on the track with two blocks: block 0 is returned once only.\<close>

theorem checkBlockCollision_first_uncollected_witness:
  "fst (checkBlockCollision twoBlockTrack 0 0)
     = Some \<lparr>index = 0, col_color = 0xff0000, col_segmentIndex = 0\<rparr> \<and>
   collectible 0 0 (blocks twoBlockTrack ! 0) \<and>
   collected (blocks (snd (checkBlockCollision twoBlockTrack 0 0)) ! 0) \<and>
   fst (checkBlockCollision (snd (checkBlockCollision twoBlockTrack 0 0)) 0 0)
     \<noteq> Some \<lparr>index = 0, col_color = 0xff0000, col_segmentIndex = 0\<rparr>"
proof -
  have h: "fst (checkBlockCollision twoBlockTrack 0 0)
     = Some \<lparr>index = 0, col_color = 0xff0000, col_segmentIndex = 0\<rparr>"
    by (simp add: checkBlockCollision_def twoBlockTrack_def createBlock_def newTrackGenerator_def)
  from checkBlockCollision_first_uncollected [of twoBlockTrack 0 0] h
  have "collectible 0 0 (blocks twoBlockTrack ! 0)"
    and "snd (checkBlockCollision twoBlockTrack 0 0)
        = twoBlockTrack\<lparr>blocks := (blocks twoBlockTrack)[0 := collect (blocks twoBlockTrack ! 0)]\<rparr>"
    and "\<forall>c'. fst (checkBlockCollision (snd (checkBlockCollision twoBlockTrack 0 0)) 0 0) = Some c'
         \<longrightarrow> index c' \<noteq> 0"
    by auto
  with h show ?thesis
    by (auto simp: collect_def twoBlockTrack_def createBlock_def newTrackGenerator_def)
qed

section \<open>Band energies\<close>

lemma binIndex_nonneg:
  assumes "0 < nyquist" "0 \<le> freq"
  shows "0 \<le> binIndex nyquist n freq"
proof -
  have "0 \<le> freq / nyquist" using assms by simp
  then have "0 \<le> toDouble (freq / nyquist) * real n"
    by (intro mult_nonneg_nonneg toDouble_nonneg) simp_all
  then have "0 \<le> toDouble (toDouble (freq / nyquist) * real n)" by (rule toDouble_nonneg)
  then show ?thesis by (simp add: binIndex_def)
qed

lemma binIndex_mono:
  assumes "0 < nyquist" "0 \<le> f" "f \<le> g"
  shows "binIndex nyquist n f \<le> binIndex nyquist n g"
proof -
  have q: "0 \<le> f / nyquist" "f / nyquist \<le> g / nyquist"
    using assms by (simp_all add: divide_right_mono)
  then have "toDouble (f / nyquist) \<le> toDouble (g / nyquist)" by (rule toDouble_mono)
  then have "toDouble (f / nyquist) * real n \<le> toDouble (g / nyquist) * real n"
    by (rule mult_right_mono) simp
  moreover have "0 \<le> toDouble (f / nyquist) * real n"
    using q(1) by (intro mult_nonneg_nonneg toDouble_nonneg) simp_all
  ultimately have "toDouble (toDouble (f / nyquist) * real n)
                   \<le> toDouble (toDouble (g / nyquist) * real n)"
    by (intro toDouble_mono)
  then show ?thesis unfolding binIndex_def by (rule floor_mono)
qed

text \<open>Locating a bin from the exact quotient, with room for the two roundings.\<close>

lemma binIndex_bounds:
  assumes "0 \<le> c"
  shows "c * real n * (998 / 1000) \<le> toDouble (toDouble c * real n)"
    and "toDouble (toDouble c * real n) \<le> c * real n * (1003 / 1000)"
proof -
  define P where "P = c * real n"
  define Q where "Q = toDouble c * real n"
  have n: "0 \<le> real n" by simp
  have P: "0 \<le> P" unfolding P_def using assms n by (rule mult_nonneg_nonneg)
  have Q: "0 \<le> Q" unfolding Q_def using toDouble_nonneg [OF assms] n by (rule mult_nonneg_nonneg)
  have "c * (999 / 1000) * real n \<le> toDouble c * real n"
    using toDouble_coarse(1) [OF assms] n by (rule mult_right_mono)
  then have lo: "P * (999 / 1000) \<le> Q" by (simp add: P_def Q_def algebra_simps)
  have "toDouble c * real n \<le> c * (1001 / 1000) * real n"
    using toDouble_coarse(2) [OF assms] n by (rule mult_right_mono)
  then have hi: "Q \<le> P * (1001 / 1000)" by (simp add: P_def Q_def algebra_simps)
  from toDouble_coarse [OF Q] have b: "Q * (999 / 1000) \<le> toDouble Q" "toDouble Q \<le> Q * (1001 / 1000)"
    by simp_all
  from lo hi b P have "P * (998 / 1000) \<le> toDouble Q" "toDouble Q \<le> P * (1003 / 1000)"
    by linarith+
  then show "c * real n * (998 / 1000) \<le> toDouble (toDouble c * real n)"
    and "toDouble (toDouble c * real n) \<le> c * real n * (1003 / 1000)"
    by (simp_all only: P_def Q_def)
qed



lemma foldl_NaN: "foldl (\<lambda>e i. jadd e (g i)) NaN xs = NaN"
  by (induction xs) simp_all

lemma foldl_jadd_Num:
  "\<forall>i\<in>set xs. g i = Num (h i) \<Longrightarrow>
   foldl (\<lambda>e i. jadd e (g i)) (Num a) xs = Num (a + sum_list (map h xs))"
  by (induction xs arbitrary: a) (simp_all add: add.assoc)

lemma foldl_jadd_NaN:
  "\<exists>i\<in>set xs. g i = NaN \<Longrightarrow> foldl (\<lambda>e i. jadd e (g i)) acc xs = NaN"
proof (induction xs arbitrary: acc)
  case Nil
  then show ?case by simp
next
  case (Cons x xs)
  show ?case
  proof (cases "g x = NaN")
    case True
    then have "jadd acc (g x) = NaN" by (cases acc) simp_all
    then show ?thesis by (simp add: foldl_NaN)
  next
    case False
    with Cons.prems have "\<exists>i\<in>set xs. g i = NaN" by auto
    from Cons.IH [OF this] show ?thesis by simp
  qed
qed

lemma bandSum_in_range:
  assumes "0 \<le> lo" "hi < int (length fd)"
  shows "bandSum fd lo hi = Num (sum_list (map (\<lambda>i. real (unat (fd ! nat i)) / 255) [lo..hi]))"
proof -
  have "\<forall>i\<in>set [lo..hi]. jdiv (js_byte fd i) (Num 255) = Num (real (unat (fd ! nat i)) / 255)"
    using assms by (auto simp: js_byte_def)
  from foldl_jadd_Num [OF this, of 0] show ?thesis by (simp add: bandSum_def)
qed

lemma bandSum_out_of_range:
  assumes "lo \<le> hi" "int (length fd) \<le> hi"
  shows "bandSum fd lo hi = NaN"
proof -
  have "hi \<in> set [lo..hi]" using assms by simp
  moreover have "jdiv (js_byte fd hi) (Num 255) = NaN" using assms by (simp add: js_byte_def)
  ultimately have "\<exists>i\<in>set [lo..hi]. jdiv (js_byte fd i) (Num 255) = NaN" by blast
  from foldl_jadd_NaN [OF this] show ?thesis by (simp add: bandSum_def)
qed

lemma bandEnergy_in_range:
  assumes "0 < nyquist" "0 \<le> fst band" "fst band \<le> snd band"
    and "binIndex nyquist (length fd) (snd band) < int (length fd)"
  shows "bandEnergy nyquist fd band =
         Num (binAverage fd (binIndex nyquist (length fd) (fst band))
                            (binIndex nyquist (length fd) (snd band)))"
proof -
  have lo: "0 \<le> binIndex nyquist (length fd) (fst band)"
    using assms(1,2) by (rule binIndex_nonneg)
  have le: "binIndex nyquist (length fd) (fst band) \<le> binIndex nyquist (length fd) (snd band)"
    using assms(1,2,3) by (rule binIndex_mono)
  from lo le assms(4) show ?thesis
    by (simp add: bandEnergy_def Let_def binAverage_def bandSum_in_range)
qed

lemma bandEnergy_out_of_range:
  assumes "0 < nyquist" "0 \<le> fst band" "fst band \<le> snd band"
    and "int (length fd) \<le> binIndex nyquist (length fd) (snd band)"
  shows "bandEnergy nyquist fd band = NaN"
proof -
  have "binIndex nyquist (length fd) (fst band) \<le> binIndex nyquist (length fd) (snd band)"
    using assms(1,2,3) by (rule binIndex_mono)
  from bandSum_out_of_range [OF this assms(4)] show ?thesis
    by (simp add: bandEnergy_def Let_def)
qed

lemma config_bands_ordered:
  "band \<in> set CONFIG_audio_frequencyBands \<Longrightarrow>
   0 \<le> fst band \<and> fst band \<le> snd band \<and> snd band \<le> 20000"
  by (auto simp: CONFIG_audio_frequencyBands_def)

lemma calculateBandEnergies_nth:
  assumes "k < length CONFIG_audio_frequencyBands"
  shows "calculateBandEnergies ap fd ! k =
         bandEnergy (toDouble (contextSampleRate ap / 2)) fd (CONFIG_audio_frequencyBands ! k)"
  using assms by (simp add: calculateBandEnergies_def Let_def)



text \<open>
  With 735 bins and a Nyquist frequency of 22050 Hz the limit 60 Hz lands in bin 1: the
  exact value of \<open>60 / 22050 * 735\<close> is 2, the computed one is just below.
\<close>

lemma bin_60_of_735: "binIndex 22050 735 60 = 1"
  using double_60_22050_735 by (simp add: binIndex_def)




section \<open>Range of the features\<close>

lemma sum_list_bounds:
  "\<forall>x\<in>set xs. 0 \<le> g x \<and> g x \<le> c \<Longrightarrow>
   0 \<le> sum_list (map g xs) \<and> sum_list (map g xs) \<le> c * real (length xs)" for c :: real
  by (induction xs) (auto simp: algebra_simps)

lemma byte_nonneg: "0 \<le> real (unat (w :: 8 word))"
  by (rule of_nat_0_le_iff)

lemma byte_le_255: "real (unat (w :: 8 word)) \<le> 255"
proof -
  have "unat w < 2 ^ LENGTH(8)" by (rule unsigned_less)
  then have "unat w \<le> 255" by simp
  then have "real (unat w) \<le> real 255" by (rule of_nat_mono)
  then show ?thesis by simp
qed

lemma binAverage_unit:
  assumes "lo \<le> hi"
  shows "0 \<le> binAverage fd lo hi \<and> binAverage fd lo hi \<le> 1"
proof -
  let ?g = "\<lambda>i. real (unat (fd ! nat i)) / 255"
  have "\<forall>i\<in>set [lo..hi]. 0 \<le> ?g i \<and> ?g i \<le> 1"
    using byte_le_255 byte_nonneg by simp
  from sum_list_bounds [OF this]
  have s: "0 \<le> sum_list (map ?g [lo..hi])" "sum_list (map ?g [lo..hi]) \<le> real_of_int (hi - lo + 1)"
    using assms by simp_all
  have pos: "0 < real_of_int (hi - lo + 1)" using assms by simp
  from s pos have "0 \<le> sum_list (map ?g [lo..hi]) / real_of_int (hi - lo + 1)"
    by simp
  moreover from s pos have "sum_list (map ?g [lo..hi]) / real_of_int (hi - lo + 1) \<le> 1"
    by (simp add: divide_le_eq)
  ultimately show ?thesis by (simp add: binAverage_def)
qed

text \<open>
  Where the features do stay in range: with a non-empty spectrum and a context sample
  rate of at least 44.1 kHz every band ends inside the array, and every band energy is a
  number in \<open>[0, 1]\<close>.
\<close>

lemma calculateBandEnergies_unit:
  assumes "44100 \<le> contextSampleRate ap" "fd \<noteq> []" "k < length CONFIG_audio_frequencyBands"
  shows "\<exists>e. calculateBandEnergies ap fd ! k = Num e \<and> 0 \<le> e \<and> e \<le> 1"
proof -
  define nyq where "nyq = toDouble (contextSampleRate ap / 2)"
  let ?b = "CONFIG_audio_frequencyBands ! k"
  have mem: "?b \<in> set CONFIG_audio_frequencyBands" using assms(3) by simp
  from config_bands_ordered [OF mem]
  have b: "0 \<le> fst ?b" "fst ?b \<le> snd ?b" "snd ?b \<le> 20000" by simp_all
  have h: "0 \<le> contextSampleRate ap / 2" using assms(1) by simp
  from toDouble_coarse(1) [OF h] assms(1) have n: "22000 \<le> nyq" unfolding nyq_def by simp
  then have npos: "0 < nyq" by simp
  define c where "c = snd ?b / nyq"
  have c0: "0 \<le> c" unfolding c_def using b npos by simp
  have "snd ?b / nyq \<le> 20000 / 22000"
    using b n npos by (intro frac_le) simp_all
  then have c1: "c \<le> 10 / 11" unfolding c_def by simp
  have len: "0 < real (length fd)" using assms(2) by simp
  define L where "L = real (length fd)"
  define P where "P = c * real (length fd)"
  have "c * real (length fd) \<le> 10 / 11 * real (length fd)"
    using c1 len by (intro mult_right_mono) simp_all
  then have p: "P \<le> 10 / 11 * L" and l: "0 < L" using len by (simp_all add: P_def L_def)
  from binIndex_bounds(2) [OF c0, of "length fd"]
  have "toDouble (toDouble c * real (length fd)) \<le> P * (1003 / 1000)" by (simp only: P_def)
  with p l have "toDouble (toDouble c * real (length fd)) < L" by linarith
  then have "toDouble (toDouble c * real (length fd)) < real (length fd)" by (simp only: L_def)
  then have hi: "binIndex nyq (length fd) (snd ?b) < int (length fd)"
    unfolding binIndex_def c_def by (simp add: floor_less_iff)
  have le: "binIndex nyq (length fd) (fst ?b) \<le> binIndex nyq (length fd) (snd ?b)"
    using npos b(1,2) by (rule binIndex_mono)
  have "calculateBandEnergies ap fd ! k
        = Num (binAverage fd (binIndex nyq (length fd) (fst ?b)) (binIndex nyq (length fd) (snd ?b)))"
    using bandEnergy_in_range [OF npos b(1,2) hi]
    by (simp only: calculateBandEnergies_nth [OF assms(3)] nyq_def)
  with binAverage_unit [OF le] show ?thesis by blast
qed

text \<open>
  C5 asks for every band energy to lie in \<open>[0, 1]\<close> at any sample rate. At a context
  sample rate of 16 kHz (a hands-free audio device) the last band, up to 20 kHz, ends at
  bin 2560 of the 1024 bins; the loop adds \<open>undefined / 255\<close> and the band energy is
  \<open>NaN\<close>.
\<close>

theorem band_energy_nan_at_low_sample_rate:
  "calculateBandEnergies (liveProcessor 16000) (replicate 1024 0) ! 5 = NaN"
proof -
  have n: "toDouble (contextSampleRate (liveProcessor 16000) / 2) = 8000"
    using toDouble_8000 by (simp add: liveProcessor_def)
  have k: "5 < length CONFIG_audio_frequencyBands" by (simp add: CONFIG_audio_frequencyBands_def)
  have b: "CONFIG_audio_frequencyBands ! 5 = (6000, 20000)"
    by (simp add: CONFIG_audio_frequencyBands_def)
  have "(20000 / 8000 :: real) * real (1024 :: nat) * (998 / 1000)
        \<le> toDouble (toDouble (20000 / 8000) * real (1024 :: nat))"
    by (rule binIndex_bounds) simp
  then have "int (length (replicate 1024 (0 :: 8 word)))
             \<le> binIndex 8000 (length (replicate 1024 (0 :: 8 word))) (snd (6000, 20000 :: real))"
    by (simp add: binIndex_def le_floor_iff)
  then have "bandEnergy 8000 (replicate 1024 0) (6000, 20000) = NaN"
    by (intro bandEnergy_out_of_range) simp_all
  then show ?thesis by (simp only: calculateBandEnergies_nth [OF k] n b)
qed

text \<open>On empty arrays \<open>detectBeat\<close> divides \<open>0\<close> by \<open>0\<close>.\<close>

lemma detectBeat_empty: "detectBeat (liveProcessor 44100) [] [] = NaN"
  by (simp add: detectBeat_def binIndex_def Let_def)

text \<open>
  With at least one bass bin, all of them inside the spectrum, and a non-empty waveform,
  the beat intensity is a number in \<open>[0, 1]\<close>.
\<close>

lemma detectBeat_unit:
  assumes "0 < binIndex (toDouble (contextSampleRate ap / 2)) (length fd) 150"
    and "binIndex (toDouble (contextSampleRate ap / 2)) (length fd) 150 \<le> int (length fd)"
    and "td \<noteq> []"
  shows "\<exists>b. detectBeat ap fd td = Num b \<and> 0 \<le> b \<and> b \<le> 1"
proof -
  define m where "m = binIndex (toDouble (contextSampleRate ap / 2)) (length fd) 150"
  let ?h = "\<lambda>i. real (unat (fd ! nat i))"
  let ?d = "\<lambda>i. \<bar>real (unat (td ! nat i)) - real (unat (td ! nat (i - 1)))\<bar>"
  define S where "S = sum_list (map ?h [0..m - 1])"
  define T where "T = sum_list (map ?d [1..int (length td) - 1])"
  from assms(1,2) have m: "0 < m" "m \<le> int (length fd)" by (simp_all only: m_def)
  have "\<forall>i\<in>set [0..m - 1]. js_byte fd i = Num (?h i)"
    using m(2) by (auto simp: js_byte_def)
  from foldl_jadd_Num [OF this, of 0]
  have e: "foldl (\<lambda>e i. jadd e (js_byte fd i)) (Num 0) [0..m - 1] = Num S"
    by (simp add: S_def)
  have "\<forall>i\<in>set [1..int (length td) - 1].
          jabs (jsub (js_byte td i) (js_byte td (i - 1))) = Num (?d i)"
    by (auto simp: js_byte_def)
  from foldl_jadd_Num [OF this, of 0]
  have t: "foldl (\<lambda>t i. jadd t (jabs (jsub (js_byte td i) (js_byte td (i - 1))))) (Num 0)
             [1..int (length td) - 1] = Num T"
    by (simp add: T_def)
  have "\<forall>i\<in>set [0..m - 1]. 0 \<le> ?h i \<and> ?h i \<le> 255"
    using byte_nonneg byte_le_255 by blast
  from sum_list_bounds [OF this] have S: "0 \<le> S" unfolding S_def by blast
  have T: "0 \<le> T" unfolding T_def by (rule sum_list_nonneg) auto
  have mpos: "0 < real_of_int (m * 255)" using m(1) by simp
  have lpos: "0 < 255 * real (length td)" using assms(3) by simp
  define x where "x = S / real_of_int (m * 255) * (7 / 10) + T / (255 * real (length td)) * (3 / 10)"
  have x: "0 \<le> x" unfolding x_def using S T mpos lpos
    by (intro add_nonneg_nonneg mult_nonneg_nonneg divide_nonneg_pos) simp_all
  have "detectBeat ap fd td
        = jmin (Num 1) (jadd (jmul (jdiv (Num S) (Num (real_of_int (m * 255)))) (Num (7 / 10)))
                             (jmul (jdiv (Num T) (Num (255 * real (length td)))) (Num (3 / 10))))"
    unfolding detectBeat_def Let_def m_def [symmetric] e t ..
  also have "\<dots> = Num (min 1 x)"
    using mpos lpos unfolding x_def by (simp only: jdiv.simps jmul.simps jadd.simps jmin.simps) simp
  finally have "detectBeat ap fd td = Num (min 1 x)" .
  moreover have "0 \<le> min 1 x" using x by simp
  moreover have "min 1 x \<le> 1" by simp
  ultimately show ?thesis by blast
qed

section \<open>The analysis run\<close>












text \<open>
  C8. Without a decoded buffer \<open>analyzeAudio\<close> rejects at once with the no-audio error
  and leaves the processor, \<open>analysisResults\<close> and \<open>analysisDone\<close> included, as it was.
\<close>

theorem analyzeAudio_no_buffer:
  assumes "audioBuffer ap = None"
  shows "analyzeAudio env ap resolution = (Rejected NoAudioBuffer, ap)"
  using assms by (simp add: analyzeAudio_def)

text \<open>C8 on a processor that has not loaded a file.\<close>

theorem analyzeAudio_no_buffer_witness:
  "audioBuffer (liveProcessor 44100) = None \<and>
   analyzeAudio silentAnalyser (liveProcessor 44100) 10
     = (Rejected NoAudioBuffer, liveProcessor 44100)"
  using analyzeAudio_no_buffer [of "liveProcessor 44100" silentAnalyser 10]
  by (simp add: liveProcessor_def)

end
